theory Spec2Isabelle
  imports Complex_Main
begin

section \<open>Sky Jump: the simulation step of game.js\<close>

text \<open>
  The program is one script, \<^verbatim>\<open>game.js\<close>: global mutable variables (the player,
  the platform list, the score, the high score, the running flag) and the functions
  \<^verbatim>\<open>initPlatforms\<close>, \<^verbatim>\<open>updatePlayer\<close>, \<^verbatim>\<open>gameOver\<close>, \<^verbatim>\<open>gameLoop\<close> and
  \<^verbatim>\<open>resetGame\<close> that mutate them. The model passes the globals as one record.

  JavaScript numbers are modelled as exact reals (no rounding, no NaN, no infinities);
  the score is only ever assigned results of \<^verbatim>\<open>Math.floor\<close>, so it is an integer.
  Drawing and writes to DOM elements do not feed back into the state and are left out.
  \<^verbatim>\<open>Math.random()\<close> is a stream \<open>rnd\<close> given to each function that draws from it; the
  held keys, set by the event handlers between frames, are an argument of the tick.
\<close>

subsection \<open>Constants (lines 11-12, 30-38)\<close>

definition canvas_width :: real where "canvas_width = 460"
definition canvas_height :: real where "canvas_height = 600"
definition gravity :: real where "gravity = 1 / 2"
definition jumpStrength :: real where "jumpStrength = - 15"
definition moveSpeed :: real where "moveSpeed = 7"
definition maxVelocityX :: real where "maxVelocityX = 8"
definition platformWidth :: real where "platformWidth = 80"
definition platformHeight :: real where "platformHeight = 15"
definition platformGap :: real where "platformGap = 80"

named_theorems game_consts

lemmas game_constants [game_consts] =
  canvas_width_def canvas_height_def gravity_def jumpStrength_def moveSpeed_def
  maxVelocityX_def platformWidth_def platformHeight_def platformGap_def

subsection \<open>Data\<close>

text \<open>
  The player object and the platform objects both have fields \<^verbatim>\<open>x\<close>, \<^verbatim>\<open>y\<close>,
  \<^verbatim>\<open>width\<close>, \<^verbatim>\<open>height\<close> and \<^verbatim>\<open>color\<close>; the selectors carry the prefix
  \<open>pl_\<close> for the player and \<open>pf_\<close> for a platform.
\<close>

record platform =
  pf_x :: real
  pf_y :: real
  pf_width :: real
  pf_height :: real
  pf_color :: string

record player =
  pl_x :: real
  pl_y :: real
  pl_width :: real
  pl_height :: real
  velocityY :: real
  velocityX :: real
  jumping :: bool
  pl_color :: string

record keys =
  left :: bool
  right :: bool

text \<open>
  \<^verbatim>\<open>highScore\<close> holds either a number (the literal 0, or a score) or the text that
  \<^verbatim>\<open>localStorage.getItem\<close> returned.
\<close>

datatype jsval = JNum int | JStr string

datatype error = TypeError

record game =
  gameRunning :: bool
  score :: int
  highScore :: jsval
  player :: player
  platforms :: "platform list"
  storage :: "string option"

text \<open>
  \<open>storage\<close> is the entry of \<^verbatim>\<open>localStorage\<close> under the key
  \<^verbatim>\<open>skyJumpHighScore\<close>: \<open>None\<close> when the key is absent (\<^verbatim>\<open>getItem\<close> returns null).
\<close>

subsection \<open>The persisted high score (lines 16, 172-183)\<close>

text \<open>
  \<^verbatim>\<open>localStorage.getItem('skyJumpHighScore') || 0\<close>: \<^verbatim>\<open>||\<close> yields its left operand
  unless that is falsy; of the values \<^verbatim>\<open>getItem\<close> returns, null and the empty
  string are falsy.
\<close>

definition readHighScore :: "string option \<Rightarrow> jsval" where
  "readHighScore stored =
     (case stored of
        None \<Rightarrow> JNum 0
      | Some t \<Rightarrow> if t = [] then JNum 0 else JStr t)"

text \<open>
  \<^verbatim>\<open>score > highScore\<close> with a number on the left compares numerically; a text on
  the right is first converted by the language's string-to-number conversion, which is
  the parameter \<open>toNum\<close> (\<open>None\<close> stands for NaN, and every comparison with NaN is
  false).
\<close>

definition js_gt :: "(string \<Rightarrow> real option) \<Rightarrow> int \<Rightarrow> jsval \<Rightarrow> bool" where
  "js_gt toNum n v =
     (case v of
        JNum h \<Rightarrow> n > h
      | JStr t \<Rightarrow> (case toNum t of None \<Rightarrow> False | Some r \<Rightarrow> real_of_int n > r))"

text \<open>
  \<^verbatim>\<open>setItem\<close> stores the text of its argument; for an integer that is its decimal
  numeral.
\<close>

fun digits_of :: "nat \<Rightarrow> string" where
  "digits_of n =
     (if n < 10 then [''0123456789'' ! n]
      else digits_of (n div 10) @ [''0123456789'' ! (n mod 10)])"

declare digits_of.simps [simp del]

definition number_to_string :: "int \<Rightarrow> string" where
  "number_to_string i =
     (if i < 0 then CHR ''-'' # digits_of (nat (- i)) else digits_of (nat i))"

definition gameOver :: "(string \<Rightarrow> real option) \<Rightarrow> game \<Rightarrow> game" where
  "gameOver toNum s =
     (let s1 = s\<lparr>gameRunning := False\<rparr>
      in if js_gt toNum (score s1) (highScore s1)
         then s1\<lparr>highScore := JNum (score s1),
                 storage := Some (number_to_string (score s1))\<rparr>
         else s1)"

subsection \<open>The platform ladder (lines 45-65)\<close>

definition newPlatform :: "real \<Rightarrow> real \<Rightarrow> platform" where
  "newPlatform px py =
     \<lparr>pf_x = px, pf_y = py, pf_width = platformWidth, pf_height = platformHeight,
      pf_color = ''#4ECDC4''\<rparr>"

definition initPlatforms :: "(nat \<Rightarrow> real) \<Rightarrow> platform list" where
  "initPlatforms rnd =
     newPlatform (canvas_width / 2 - platformWidth / 2) (canvas_height - 50) #
     map (\<lambda>i. newPlatform (rnd (i - 1) * (canvas_width - platformWidth))
                           (canvas_height - 50 - real i * platformGap))
         [1..<10]"

subsection \<open>One tick: updatePlayer (lines 102-170)\<close>

text \<open>Lines 103-112: horizontal control, clamp, move.\<close>

definition horizontalStep :: "keys \<Rightarrow> game \<Rightarrow> game" where
  "horizontalStep k s =
     (let pl = player s;
          vx = (if left k then - moveSpeed
                else if right k then moveSpeed
                else velocityX pl * (8 / 10));
          vx' = max (- maxVelocityX) (min maxVelocityX vx)
      in s\<lparr>player := pl\<lparr>velocityX := vx', pl_x := pl_x pl + vx'\<rparr>\<rparr>)"

text \<open>Lines 114-118: screen wrap.\<close>

definition wrapStep :: "game \<Rightarrow> game" where
  "wrapStep s =
     (let pl = player s
      in if pl_x pl < - pl_width pl then s\<lparr>player := pl\<lparr>pl_x := canvas_width\<rparr>\<rparr>
         else if pl_x pl > canvas_width then s\<lparr>player := pl\<lparr>pl_x := - pl_width pl\<rparr>\<rparr>
         else s)"

text \<open>Lines 120-121: gravity and vertical move.\<close>

definition verticalStep :: "game \<Rightarrow> game" where
  "verticalStep s =
     (let pl = player s;
          vy = velocityY pl + gravity
      in s\<lparr>player := pl\<lparr>velocityY := vy, pl_y := pl_y pl + vy\<rparr>\<rparr>)"

text \<open>
  Lines 123-141: the collision pass. \<open>hits\<close> is the geometric part of the test of
  lines 125-128; the body of the \<^verbatim>\<open>forEach\<close> callback is \<open>collide\<close>, which also
  re-reads the velocity (line 129).
\<close>

definition hits :: "player \<Rightarrow> platform \<Rightarrow> bool" where
  "hits pl p \<longleftrightarrow>
     pl_x pl + pl_width pl > pf_x p \<and>
     pl_x pl < pf_x p + pf_width p \<and>
     pl_y pl + pl_height pl > pf_y p \<and>
     pl_y pl + pl_height pl < pf_y p + pf_height p + 15"

definition jumpScore :: "platform \<Rightarrow> int" where
  "jumpScore p = \<lfloor>\<bar>pf_y p - canvas_height\<bar> / 10\<rfloor>"

definition collide :: "platform \<Rightarrow> game \<Rightarrow> game" where
  "collide p s =
     (if hits (player s) p \<and> velocityY (player s) > 0
      then (let s1 = s\<lparr>player := (player s)\<lparr>velocityY := jumpStrength, jumping := True\<rparr>\<rparr>
            in if jumpScore p > score s1 then s1\<lparr>score := jumpScore p\<rparr> else s1)
      else s)"

definition collisionStep :: "game \<Rightarrow> game" where
  "collisionStep s =
     (if velocityY (player s) > 0 then fold collide (platforms s) s else s)"

text \<open>
  Lines 152-161: the replenishment loop. Reading \<^verbatim>\<open>lastPlatform.y\<close> when the list
  is empty (\<^verbatim>\<open>platforms[-1]\<close> is undefined) throws a TypeError.
\<close>

function replenish :: "(nat \<Rightarrow> real) \<Rightarrow> platform list \<Rightarrow> error + platform list" where
  "replenish rnd ps =
     (if length ps < 10
      then (if ps = [] then Inl TypeError
            else replenish (\<lambda>i. rnd (Suc i))
                   (ps @ [newPlatform (rnd 0 * (canvas_width - platformWidth))
                                      (pf_y (last ps) - platformGap)]))
      else Inr ps)"
  by pat_completeness auto
termination
  by (relation "measure (\<lambda>(rnd, ps). 10 - length ps)") auto

declare replenish.simps [simp del]

text \<open>
  Lines 143-165: the camera scroll. When the loop throws, the globals keep what was
  assigned before: the filtered list, and the score without the scroll addition.
\<close>

definition scrolling :: "game \<Rightarrow> bool" where
  "scrolling s \<longleftrightarrow> pl_y (player s) < canvas_height / 3 \<and> velocityY (player s) < 0"

definition scrollStep :: "(nat \<Rightarrow> real) \<Rightarrow> game \<Rightarrow> (error \<times> game) + game" where
  "scrollStep rnd s =
     (if scrolling s
      then (let scrollSpeed = - velocityY (player s);
                moved = map (\<lambda>p. p\<lparr>pf_y := pf_y p + scrollSpeed\<rparr>) (platforms s);
                kept = filter (\<lambda>p. pf_y p < canvas_height + 50) moved
            in case replenish rnd kept of
                 Inl e \<Rightarrow> Inl (e, s\<lparr>platforms := kept\<rparr>)
               | Inr ps \<Rightarrow> Inr (s\<lparr>platforms := ps, score := score s + \<lfloor>scrollSpeed\<rfloor>\<rparr>))
      else Inr s)"

text \<open>Lines 167-169: the terminal check.\<close>

definition terminalStep :: "(string \<Rightarrow> real option) \<Rightarrow> game \<Rightarrow> game" where
  "terminalStep toNum s =
     (if pl_y (player s) > canvas_height then gameOver toNum s else s)"

definition physics :: "keys \<Rightarrow> game \<Rightarrow> game" where
  "physics k s = collisionStep (verticalStep (wrapStep (horizontalStep k s)))"

definition updatePlayer ::
  "(string \<Rightarrow> real option) \<Rightarrow> (nat \<Rightarrow> real) \<Rightarrow> keys \<Rightarrow> game \<Rightarrow> (error \<times> game) + game" where
  "updatePlayer toNum rnd k s =
     (case scrollStep rnd (physics k s) of
        Inl f \<Rightarrow> Inl f
      | Inr s1 \<Rightarrow> Inr (terminalStep toNum s1))"

subsection \<open>The loop, start and reset (lines 14-28, 202-226, 272-273)\<close>

definition gameLoop ::
  "(string \<Rightarrow> real option) \<Rightarrow> (nat \<Rightarrow> real) \<Rightarrow> keys \<Rightarrow> game \<Rightarrow> (error \<times> game) + game" where
  "gameLoop toNum rnd k s =
     (if \<not> gameRunning s then Inr s else updatePlayer toNum rnd k s)"

definition initialPlayer :: player where
  "initialPlayer =
     \<lparr>pl_x = canvas_width / 2 - 25, pl_y = canvas_height - 150, pl_width = 50,
      pl_height = 50, velocityY = 0, velocityX = 0, jumping = False,
      pl_color = ''#FF6B6B''\<rparr>"

definition startGame :: "(nat \<Rightarrow> real) \<Rightarrow> string option \<Rightarrow> game" where
  "startGame rnd stored =
     \<lparr>gameRunning = True, score = 0, highScore = readHighScore stored,
      player = initialPlayer, platforms = initPlatforms rnd, storage = stored\<rparr>"

definition resetGame :: "(nat \<Rightarrow> real) \<Rightarrow> game \<Rightarrow> game" where
  "resetGame rnd s =
     s\<lparr>gameRunning := True, score := 0,
       player := (player s)\<lparr>pl_x := canvas_width / 2 - 25, pl_y := canvas_height - 150,
                            velocityY := 0, velocityX := 0\<rparr>,
       platforms := initPlatforms rnd\<rparr>"

text \<open>
  The states the program can be in between two frames: the state after the script has
  loaded, the state after a frame of the loop, and the state after the restart button
  (also when the previous frame threw and left its partial state behind).
\<close>

inductive reachable :: "(string \<Rightarrow> real option) \<Rightarrow> game \<Rightarrow> bool"
  for toNum :: "string \<Rightarrow> real option" where
  start: "reachable toNum (startGame rnd stored)"
| frame: "reachable toNum s \<Longrightarrow> gameLoop toNum rnd k s = Inr s' \<Longrightarrow> reachable toNum s'"
| reset: "reachable toNum s \<Longrightarrow> reachable toNum (resetGame rnd s)"
| reset_after_throw:
    "reachable toNum s \<Longrightarrow> gameLoop toNum rnd k s = Inl (e, s') \<Longrightarrow>
     reachable toNum (resetGame rnd' s')"

text \<open>
  The animation frames of one page: \<^verbatim>\<open>gameLoop\<close> schedules itself again after each
  frame, and a frame that throws schedules nothing. Each frame has its own held keys
  and its own random draws.
\<close>

fun frames ::
  "(string \<Rightarrow> real option) \<Rightarrow> (keys \<times> (nat \<Rightarrow> real)) list \<Rightarrow> game \<Rightarrow> (error \<times> game) + game" where
  "frames toNum [] s = Inr s"
| "frames toNum (i # ins) s =
     (case gameLoop toNum (snd i) (fst i) s of
        Inl f \<Rightarrow> Inl f
      | Inr s' \<Rightarrow> frames toNum ins s')"

text \<open>The globals after a tick, whether it returned or threw.\<close>

definition finalState :: "(error \<times> game) + game \<Rightarrow> game" where
  "finalState r = (case r of Inl f \<Rightarrow> snd f | Inr s \<Rightarrow> s)"

subsection \<open>Notions used in the proofs\<close>

text \<open>The effect of the first platform that is hit (lines 131-138).\<close>

definition bounce :: "platform \<Rightarrow> game \<Rightarrow> game" where
  "bounce p s =
     s\<lparr>player := (player s)\<lparr>velocityY := jumpStrength, jumping := True\<rparr>,
       score := max (score s) (jumpScore p)\<rparr>"

text \<open>The two intermediate lists of the scroll branch (lines 146-150).\<close>

definition movedPlatforms :: "game \<Rightarrow> platform list" where
  "movedPlatforms s =
     map (\<lambda>p. p\<lparr>pf_y := pf_y p + (- velocityY (player s))\<rparr>) (platforms s)"

definition keptPlatforms :: "game \<Rightarrow> platform list" where
  "keptPlatforms s = filter (\<lambda>p. pf_y p < canvas_height + 50) (movedPlatforms s)"

text \<open>A ladder: each platform is one gap above the one before it in the list.\<close>

fun ladder :: "platform list \<Rightarrow> bool" where
  "ladder (p # q # r) = (pf_y q = pf_y p - platformGap \<and> ladder (q # r))"
| "ladder _ = True"

text \<open>The invariant of the reachable states.\<close>

definition stable :: "game \<Rightarrow> bool" where
  "stable s \<longleftrightarrow>
     length (platforms s) = 10 \<and> ladder (platforms s) \<and>
     pf_y (hd (platforms s)) < canvas_height + 50 \<and>
     jumpStrength \<le> velocityY (player s) \<and>
     \<bar>velocityX (player s)\<bar> \<le> maxVelocityX"

text \<open>
  The high score in memory agrees with the stored entry: it is what was read from it,
  or both were written together by \<^verbatim>\<open>gameOver\<close>.
\<close>

definition synced :: "game \<Rightarrow> bool" where
  "synced s \<longleftrightarrow>
     highScore s = readHighScore (storage s) \<or>
     (\<exists>n. highScore s = JNum n \<and> storage s = Some (number_to_string n))"

text \<open>
  The number a value of \<^verbatim>\<open>highScore\<close> stands for in a numeric comparison, and the
  number the stored entry stands for once line 16 has read it (\<open>None\<close> is NaN).
\<close>

definition toNumber :: "(string \<Rightarrow> real option) \<Rightarrow> jsval \<Rightarrow> real option" where
  "toNumber toNum v = (case v of JNum h \<Rightarrow> Some (real_of_int h) | JStr t \<Rightarrow> toNum t)"

definition storedScore :: "(string \<Rightarrow> real option) \<Rightarrow> string option \<Rightarrow> real option" where
  "storedScore toNum stored = toNumber toNum (readHighScore stored)"

text \<open>
  An instance of \<open>toNum\<close> for concrete evaluations: the conversion of plain decimal
  integer numerals, with an optional minus sign. The language reads further texts as
  numbers (surrounding blanks, fractions, exponents, other bases); this instance treats
  them as not a number, so it is only applied to texts that are such numerals.
\<close>

definition digit_value :: "char \<Rightarrow> nat option" where
  "digit_value =
     map_of [(CHR ''0'', 0), (CHR ''1'', 1), (CHR ''2'', 2), (CHR ''3'', 3), (CHR ''4'', 4),
             (CHR ''5'', 5), (CHR ''6'', 6), (CHR ''7'', 7), (CHR ''8'', 8), (CHR ''9'', 9)]"

fun parse_digits :: "nat \<Rightarrow> string \<Rightarrow> nat option" where
  "parse_digits acc [] = Some acc"
| "parse_digits acc (c # cs) =
     (case digit_value c of None \<Rightarrow> None | Some d \<Rightarrow> parse_digits (10 * acc + d) cs)"

definition decimalToNumber :: "string \<Rightarrow> real option" where
  "decimalToNumber t =
     (case t of
        [] \<Rightarrow> Some 0
      | c # cs \<Rightarrow>
          if c = CHR ''-''
          then (if cs = [] then None else map_option (\<lambda>m. - real m) (parse_digits 0 cs))
          else map_option real (parse_digits 0 t))"

text \<open>
  The collision callback as the specification words it, for comparison with \<open>collide\<close>:
  every platform whose band the player overlaps applies its effect, with no second look
  at the velocity.
\<close>

definition collideEach :: "platform \<Rightarrow> game \<Rightarrow> game" where
  "collideEach p s =
     (if hits (player s) p
      then (let s1 = s\<lparr>player := (player s)\<lparr>velocityY := jumpStrength, jumping := True\<rparr>\<rparr>
            in if jumpScore p > score s1 then s1\<lparr>score := jumpScore p\<rparr> else s1)
      else s)"


text \<open>Every platform has the standard height.\<close>

definition uniform :: "game \<Rightarrow> bool" where
  "uniform s \<longleftrightarrow> list_all (\<lambda>p. pf_height p = platformHeight) (platforms s)"

subsection \<open>Concrete states\<close>

definition noKeys :: keys where "noKeys = \<lparr>left = False, right = False\<rparr>"
definition leftKey :: keys where "leftKey = \<lparr>left = True, right = False\<rparr>"
definition rightKey :: keys where "rightKey = \<lparr>left = False, right = True\<rparr>"

text \<open>
  A running game with the player of the source (50 by 50), no stored high score, and
  platforms of the standard size at horizontal position 190 and the given heights.
\<close>

definition fixture :: "int \<Rightarrow> real \<Rightarrow> real \<Rightarrow> real \<Rightarrow> real \<Rightarrow> bool \<Rightarrow> real list \<Rightarrow> game" where
  "fixture sc px py vx vy j ys =
     \<lparr>gameRunning = True, score = sc, highScore = JNum 0,
      player = \<lparr>pl_x = px, pl_y = py, pl_width = 50, pl_height = 50, velocityY = vy,
                velocityX = vx, jumping = j, pl_color = ''#FF6B6B''\<rparr>,
      platforms = map (newPlatform 190) ys,
      storage = None\<rparr>"

text \<open>The state 62 frames after the start, with no key held and every draw 1/2.\<close>

definition climbing :: game where
  "climbing = fixture 125 205 107 0 (- (13 / 2)) True
                [649, 569, 489, 409, 329, 249, 169, 89, 9, - 71]"

text \<open>
  The state 79 frames after the start (14 with no key, 65 with the right key, every
  draw 1/2): the player has bounced once and is about to pass the bottom edge.
\<close>

definition falling :: "jsval \<Rightarrow> string option \<Rightarrow> game" where
  "falling hs st =
     (fixture 5 146 600 7 (35 / 2) True [550, 470, 390, 310, 230, 150, 70, - 10, - 90, - 170])
       \<lparr>highScore := hs, storage := st\<rparr>"

lemmas step_defs =
  gameLoop_def updatePlayer_def physics_def horizontalStep_def wrapStep_def
  verticalStep_def collisionStep_def collide_def hits_def jumpScore_def scrollStep_def
  scrolling_def terminalStep_def gameOver_def newPlatform_def game_constants Let_def
  noKeys_def leftKey_def rightKey_def

section \<open>Lemmas\<close>

subsection \<open>What each phase of the tick leaves alone\<close>

lemma horizontalStep_fields [simp]:
  "platforms (horizontalStep k s) = platforms s"
  "score (horizontalStep k s) = score s"
  "velocityY (player (horizontalStep k s)) = velocityY (player s)"
  "pl_y (player (horizontalStep k s)) = pl_y (player s)"
  "pl_width (player (horizontalStep k s)) = pl_width (player s)"
  "pl_height (player (horizontalStep k s)) = pl_height (player s)"
  "gameRunning (horizontalStep k s) = gameRunning s"
  "highScore (horizontalStep k s) = highScore s"
  "storage (horizontalStep k s) = storage s"
  by (simp_all add: horizontalStep_def Let_def)

lemma wrapStep_fields [simp]:
  "platforms (wrapStep s) = platforms s"
  "score (wrapStep s) = score s"
  "velocityY (player (wrapStep s)) = velocityY (player s)"
  "velocityX (player (wrapStep s)) = velocityX (player s)"
  "pl_y (player (wrapStep s)) = pl_y (player s)"
  "pl_width (player (wrapStep s)) = pl_width (player s)"
  "pl_height (player (wrapStep s)) = pl_height (player s)"
  "gameRunning (wrapStep s) = gameRunning s"
  "highScore (wrapStep s) = highScore s"
  "storage (wrapStep s) = storage s"
  by (simp_all add: wrapStep_def Let_def)

lemma verticalStep_fields [simp]:
  "platforms (verticalStep s) = platforms s"
  "score (verticalStep s) = score s"
  "velocityY (player (verticalStep s)) = velocityY (player s) + gravity"
  "velocityX (player (verticalStep s)) = velocityX (player s)"
  "pl_x (player (verticalStep s)) = pl_x (player s)"
  "pl_y (player (verticalStep s)) = pl_y (player s) + (velocityY (player s) + gravity)"
  "pl_width (player (verticalStep s)) = pl_width (player s)"
  "pl_height (player (verticalStep s)) = pl_height (player s)"
  "gameRunning (verticalStep s) = gameRunning s"
  "highScore (verticalStep s) = highScore s"
  "storage (verticalStep s) = storage s"
  by (simp_all add: verticalStep_def Let_def)

lemma bounce_fields [simp]:
  "platforms (bounce p s) = platforms s"
  "score (bounce p s) = max (score s) (jumpScore p)"
  "velocityY (player (bounce p s)) = jumpStrength"
  "velocityX (player (bounce p s)) = velocityX (player s)"
  "pl_x (player (bounce p s)) = pl_x (player s)"
  "pl_y (player (bounce p s)) = pl_y (player s)"
  "pl_width (player (bounce p s)) = pl_width (player s)"
  "pl_height (player (bounce p s)) = pl_height (player s)"
  "gameRunning (bounce p s) = gameRunning s"
  "highScore (bounce p s) = highScore s"
  "storage (bounce p s) = storage s"
  by (simp_all add: bounce_def)

lemma horizontalStep_vx: "\<bar>velocityX (player (horizontalStep k s))\<bar> \<le> maxVelocityX"
  by (simp add: horizontalStep_def Let_def maxVelocityX_def abs_le_iff)

lemma terminalStep_fields [simp]:
  "platforms (terminalStep toNum s) = platforms s"
  "player (terminalStep toNum s) = player s"
  "score (terminalStep toNum s) = score s"
  by (simp_all add: terminalStep_def gameOver_def Let_def)

subsection \<open>The collision pass\<close>

lemma collide_not_falling: "\<not> velocityY (player s) > 0 \<Longrightarrow> collide p s = s"
  by (simp add: collide_def)

lemma fold_collide_not_falling:
  "\<not> velocityY (player s) > 0 \<Longrightarrow> fold collide ps s = s"
  by (induction ps) (simp_all add: collide_not_falling)

lemma collide_miss: "\<not> hits (player s) p \<Longrightarrow> collide p s = s"
  by (simp add: collide_def)

lemma fold_collide_miss:
  "\<forall>q\<in>set ps. \<not> hits (player s) q \<Longrightarrow> fold collide ps s = s"
  by (induction ps) (simp_all add: collide_miss)

lemma collide_hit:
  "hits (player s) p \<Longrightarrow> velocityY (player s) > 0 \<Longrightarrow> collide p s = bounce p s"
  by (simp add: collide_def bounce_def Let_def max_def)

lemma fold_collide_first_hit:
  assumes "velocityY (player s) > 0"
    and "\<forall>q\<in>set pre. \<not> hits (player s) q"
    and "hits (player s) p"
  shows "fold collide (pre @ p # post) s = bounce p s"
proof -
  have "fold collide (pre @ p # post) s = fold collide post (collide p (fold collide pre s))"
    by simp
  also have "fold collide pre s = s"
    using assms(2) by (rule fold_collide_miss)
  also have "collide p s = bounce p s"
    using assms(3,1) by (rule collide_hit)
  also have "fold collide post (bounce p s) = bounce p s"
    by (rule fold_collide_not_falling) (simp add: bounce_def jumpStrength_def)
  finally show ?thesis .
qed

lemma collisionStep_cases:
  "collisionStep s = s \<or> (\<exists>p\<in>set (platforms s). collisionStep s = bounce p s)"
proof (cases "velocityY (player s) > 0")
  case False then show ?thesis by (simp add: collisionStep_def)
next
  case True
  show ?thesis
  proof (cases "\<exists>p\<in>set (platforms s). hits (player s) p")
    case False
    then show ?thesis using True by (simp add: collisionStep_def fold_collide_miss)
  next
    case True
    from split_list_first_prop [OF this] obtain pre p post where
      "platforms s = pre @ p # post" "hits (player s) p" "\<forall>q\<in>set pre. \<not> hits (player s) q"
      by blast
    with \<open>velocityY (player s) > 0\<close>
    have "collisionStep s = bounce p s" "p \<in> set (platforms s)"
      using fold_collide_first_hit [of s pre p post] by (simp_all add: collisionStep_def)
    then show ?thesis by blast
  qed
qed

lemma physics_cases:
  "physics k s = verticalStep (wrapStep (horizontalStep k s)) \<or>
   (\<exists>p\<in>set (platforms s). physics k s = bounce p (verticalStep (wrapStep (horizontalStep k s))))"
  using collisionStep_cases [of "verticalStep (wrapStep (horizontalStep k s))"]
  by (simp add: physics_def)

lemma physics_platforms: "platforms (physics k s) = platforms s"
  using physics_cases [of k s] by auto

lemma physics_vx: "\<bar>velocityX (player (physics k s))\<bar> \<le> maxVelocityX"
  using physics_cases [of k s] horizontalStep_vx [of k s] by auto

lemma physics_vy:
  "jumpStrength \<le> velocityY (player s) \<Longrightarrow> jumpStrength \<le> velocityY (player (physics k s))"
  using physics_cases [of k s] by (auto simp: gravity_def)

lemma physics_score: "score s \<le> score (physics k s)"
  using physics_cases [of k s] by auto

lemma physics_px:
  "pl_x (player (physics k s)) = pl_x (player (wrapStep (horizontalStep k s)))"
  "pl_width (player (physics k s)) = pl_width (player s)"
  "pl_y (player (physics k s)) = pl_y (player s) + (velocityY (player s) + gravity)"
  using physics_cases [of k s] by auto

lemma wrapStep_x:
  "pl_x (player s) + pl_width (player s) < 0 \<Longrightarrow> pl_x (player (wrapStep s)) = canvas_width"
  "0 \<le> pl_width (player s) \<Longrightarrow> pl_x (player s) > canvas_width \<Longrightarrow>
     pl_x (player (wrapStep s)) = - pl_width (player s)"
  "0 \<le> pl_width (player s) \<Longrightarrow> - pl_width (player s) \<le> pl_x (player (wrapStep s))"
  "0 \<le> pl_width (player s) \<Longrightarrow> pl_x (player (wrapStep s)) \<le> canvas_width"
  by (auto simp: wrapStep_def Let_def canvas_width_def)

subsection \<open>Ladders and the replenishment loop\<close>

lemma ladder_map_shift:
  "ladder ps \<Longrightarrow> ladder (map (\<lambda>p. p\<lparr>pf_y := pf_y p + c\<rparr>) ps)"
  by (induction ps rule: ladder.induct) auto

lemma ladder_below_head:
  "ladder (p # r) \<Longrightarrow> q \<in> set r \<Longrightarrow> pf_y q < pf_y p"
proof (induction r arbitrary: p)
  case Nil then show ?case by simp
next
  case (Cons a r)
  from Cons.prems have a: "pf_y a = pf_y p - platformGap" and l: "ladder (a # r)" by auto
  show ?case
  proof (cases "q = a")
    case True with a show ?thesis by (simp add: platformGap_def)
  next
    case False
    with Cons.prems have "q \<in> set r" by simp
    from Cons.IH [OF l this] a show ?thesis by (simp add: platformGap_def)
  qed
qed

lemma ladder_drop: "ladder ps \<Longrightarrow> ladder (drop n ps)"
proof (induction ps arbitrary: n rule: ladder.induct)
  case (1 p q r)
  show ?case
  proof (cases n)
    case 0 with 1 show ?thesis by simp
  next
    case (Suc m)
    from 1 have "ladder (drop m (q # r))" by simp
    with Suc show ?thesis by simp
  qed
qed (auto simp: drop_Cons split: nat.splits)

lemma ladder_filter_drop:
  "ladder ps \<Longrightarrow> \<exists>n. filter (\<lambda>p. pf_y p < c) ps = drop n ps"
proof (induction ps)
  case Nil then show ?case by simp
next
  case (Cons p r)
  show ?case
  proof (cases "pf_y p < c")
    case True
    have "\<forall>q\<in>set r. pf_y q < c"
      using ladder_below_head [OF Cons.prems] True by fastforce
    then have "filter (\<lambda>p. pf_y p < c) (p # r) = drop 0 (p # r)"
      using True by simp
    then show ?thesis by blast
  next
    case False
    from Cons.prems have "ladder r" by (cases r) auto
    from Cons.IH [OF this] obtain n where "filter (\<lambda>p. pf_y p < c) r = drop n r" ..
    with False have "filter (\<lambda>p. pf_y p < c) (p # r) = drop (Suc n) (p # r)" by simp
    then show ?thesis by blast
  qed
qed

lemma ladder_last:
  "ladder ps \<Longrightarrow> ps \<noteq> [] \<Longrightarrow>
   pf_y (last ps) = pf_y (hd ps) - real (length ps - 1) * platformGap"
  by (induction ps rule: ladder.induct) (auto simp: algebra_simps)

lemma ladder_snoc:
  "ladder ps \<Longrightarrow> ps \<noteq> [] \<Longrightarrow> ladder (ps @ [newPlatform px (pf_y (last ps) - platformGap)])"
  by (induction ps rule: ladder.induct) (auto simp: newPlatform_def)

lemma replenish_ladder:
  "ps \<noteq> [] \<Longrightarrow> length ps \<le> 10 \<Longrightarrow> ladder ps \<Longrightarrow>
   \<exists>new. replenish rnd ps = Inr (ps @ new) \<and> length (ps @ new) = 10 \<and> ladder (ps @ new)"
proof (induction rnd ps rule: replenish.induct)
  case (1 rnd ps)
  show ?case
  proof (cases "length ps < 10")
    case False
    with "1.prems" have "replenish rnd ps = Inr (ps @ [])" "length (ps @ []) = 10"
      by (simp_all add: replenish.simps)
    with "1.prems" show ?thesis by (metis append_Nil2)
  next
    case True
    let ?q = "newPlatform (rnd 0 * (canvas_width - platformWidth)) (pf_y (last ps) - platformGap)"
    have "\<exists>new. replenish (\<lambda>i. rnd (Suc i)) (ps @ [?q]) = Inr ((ps @ [?q]) @ new) \<and>
            length ((ps @ [?q]) @ new) = 10 \<and> ladder ((ps @ [?q]) @ new)"
      using True "1.prems" by (intro "1.IH") (simp_all add: ladder_snoc)
    then obtain new where n: "replenish (\<lambda>i. rnd (Suc i)) (ps @ [?q]) = Inr (ps @ ?q # new)"
        "length (ps @ ?q # new) = 10" "ladder (ps @ ?q # new)" by auto
    have "replenish rnd ps = Inr (ps @ ?q # new)"
      using True "1.prems"(1) n(1) by (subst replenish.simps) simp
    with n show ?thesis by blast
  qed
qed

lemma replenish_total: "ps \<noteq> [] \<Longrightarrow> \<exists>new. replenish rnd ps = Inr (ps @ new)"
proof (induction rnd ps rule: replenish.induct)
  case (1 rnd ps)
  show ?case
  proof (cases "length ps < 10")
    case False
    then have "replenish rnd ps = Inr (ps @ [])" by (simp add: replenish.simps)
    then show ?thesis by blast
  next
    case True
    let ?q = "newPlatform (rnd 0 * (canvas_width - platformWidth)) (pf_y (last ps) - platformGap)"
    from "1.IH" [OF True "1.prems"] obtain new where
      "replenish (\<lambda>i. rnd (Suc i)) (ps @ [?q]) = Inr ((ps @ [?q]) @ new)" by auto
    then have "replenish rnd ps = Inr (ps @ ?q # new)"
      using True "1.prems" by (subst replenish.simps) simp
    then show ?thesis by blast
  qed
qed

subsection \<open>The scroll branch and the whole tick\<close>

lemma scrollStep_unfold:
  "scrollStep rnd s =
     (if scrolling s
      then (case replenish rnd (keptPlatforms s) of
              Inl e \<Rightarrow> Inl (e, s\<lparr>platforms := keptPlatforms s\<rparr>)
            | Inr ps \<Rightarrow> Inr (s\<lparr>platforms := ps, score := score s + \<lfloor>- velocityY (player s)\<rfloor>\<rparr>))
      else Inr s)"
  unfolding scrollStep_def keptPlatforms_def movedPlatforms_def Let_def ..

lemma kept_ladder:
  assumes len: "length (platforms s) = 10"
    and lad: "ladder (platforms s)"
    and top: "pf_y (hd (platforms s)) < canvas_height + 50"
    and vy: "jumpStrength \<le> velocityY (player s)"
  shows "keptPlatforms s \<noteq> [] \<and> length (keptPlatforms s) \<le> 10 \<and> ladder (keptPlatforms s) \<and>
         pf_y (hd (keptPlatforms s)) < canvas_height + 50"
proof -
  let ?m = "movedPlatforms s"
  have m_len: "length ?m = 10" using len by (simp add: movedPlatforms_def)
  then have m_ne: "?m \<noteq> []" by auto
  have m_lad: "ladder ?m"
    using ladder_map_shift [OF lad, of "- velocityY (player s)"]
    by (simp add: movedPlatforms_def)
  have ps_ne: "platforms s \<noteq> []" using len by auto
  have "pf_y (hd ?m) = pf_y (hd (platforms s)) - velocityY (player s)"
    using ps_ne by (simp add: movedPlatforms_def hd_map)
  moreover have "pf_y (last ?m) = pf_y (hd ?m) - real (length ?m - 1) * platformGap"
    using m_lad m_ne by (rule ladder_last)
  ultimately have "pf_y (last ?m) < canvas_height + 50"
    using top vy m_len by (simp add: game_consts)
  moreover have "last ?m \<in> set ?m" using m_ne by simp
  ultimately have "last ?m \<in> set (keptPlatforms s)" by (simp add: keptPlatforms_def)
  then have k_ne: "keptPlatforms s \<noteq> []" by auto
  obtain n where n: "keptPlatforms s = drop n ?m"
    using ladder_filter_drop [OF m_lad, of "canvas_height + 50"]
    by (auto simp: keptPlatforms_def)
  have k_lad: "ladder (keptPlatforms s)" using m_lad by (simp add: n ladder_drop)
  have k_len: "length (keptPlatforms s) \<le> 10" using m_len by (simp add: n)
  have "hd (keptPlatforms s) \<in> set (keptPlatforms s)" using k_ne by simp
  then have "pf_y (hd (keptPlatforms s)) < canvas_height + 50"
    unfolding keptPlatforms_def by simp
  with k_ne k_len k_lad show ?thesis by simp
qed

lemma scrollStep_ok:
  assumes len: "length (platforms s) = 10"
    and lad: "ladder (platforms s)"
    and top: "pf_y (hd (platforms s)) < canvas_height + 50"
    and vy: "jumpStrength \<le> velocityY (player s)"
  shows "\<exists>s'. scrollStep rnd s = Inr s' \<and> length (platforms s') = 10 \<and> ladder (platforms s') \<and>
           pf_y (hd (platforms s')) < canvas_height + 50 \<and> player s' = player s \<and>
           gameRunning s' = gameRunning s \<and>
           (scrolling s \<longrightarrow> (\<exists>new. platforms s' = keptPlatforms s @ new))"
proof (cases "scrolling s")
  case False
  with assms show ?thesis by (simp add: scrollStep_unfold)
next
  case True
  from kept_ladder [OF assms] have k: "keptPlatforms s \<noteq> []" "length (keptPlatforms s) \<le> 10"
    "ladder (keptPlatforms s)" "pf_y (hd (keptPlatforms s)) < canvas_height + 50"
    by simp_all
  from replenish_ladder [OF k(1,2,3), of rnd] obtain new where
    r: "replenish rnd (keptPlatforms s) = Inr (keptPlatforms s @ new)"
       "length (keptPlatforms s @ new) = 10" "ladder (keptPlatforms s @ new)"
    by blast
  let ?s' = "s\<lparr>platforms := keptPlatforms s @ new,
                score := score s + \<lfloor>- velocityY (player s)\<rfloor>\<rparr>"
  have "scrollStep rnd s = Inr ?s'" using True r(1) by (simp add: scrollStep_unfold)
  moreover have "pf_y (hd (platforms ?s')) < canvas_height + 50" using k(1,4) by simp
  ultimately show ?thesis using r(2,3) by auto
qed

lemma scrollStep_final:
  "player (finalState (scrollStep rnd s)) = player s"
  "score s \<le> score (finalState (scrollStep rnd s))"
  by (auto simp: scrollStep_unfold finalState_def scrolling_def split: sum.splits)

lemma updatePlayer_final:
  "player (finalState (updatePlayer toNum rnd k s)) = player (physics k s)"
  "score (physics k s) \<le> score (finalState (updatePlayer toNum rnd k s))"
  using scrollStep_final [where rnd = rnd and s = "physics k s"]
  by (auto simp: updatePlayer_def finalState_def split: sum.splits)

subsection \<open>The invariant\<close>

lemma stable_initPlatforms:
  "length (initPlatforms rnd) = 10 \<and> ladder (initPlatforms rnd) \<and>
   pf_y (hd (initPlatforms rnd)) < canvas_height + 50"
  by (simp add: initPlatforms_def game_consts upt_rec newPlatform_def)

lemma stable_startGame: "stable (startGame rnd stored)"
  using stable_initPlatforms [of rnd]
  by (simp add: stable_def startGame_def initialPlayer_def jumpStrength_def maxVelocityX_def)

lemma stable_resetGame: "stable (resetGame rnd s)"
  using stable_initPlatforms [of rnd]
  by (simp add: stable_def resetGame_def jumpStrength_def maxVelocityX_def)

lemma updatePlayer_stable:
  assumes "stable s"
  shows "\<exists>s'. updatePlayer toNum rnd k s = Inr s' \<and> stable s' \<and>
           (scrolling (physics k s) \<longrightarrow> (\<exists>new. platforms s' = keptPlatforms (physics k s) @ new))"
proof -
  let ?p = "physics k s"
  from assms have "length (platforms ?p) = 10" "ladder (platforms ?p)"
    "pf_y (hd (platforms ?p)) < canvas_height + 50" "jumpStrength \<le> velocityY (player ?p)"
    by (simp_all add: stable_def physics_platforms physics_vy)
  from scrollStep_ok [OF this, of rnd] obtain s1 where
    s1: "scrollStep rnd ?p = Inr s1" "length (platforms s1) = 10" "ladder (platforms s1)"
      "pf_y (hd (platforms s1)) < canvas_height + 50" "player s1 = player ?p"
      "scrolling ?p \<longrightarrow> (\<exists>new. platforms s1 = keptPlatforms ?p @ new)"
    by blast
  have "updatePlayer toNum rnd k s = Inr (terminalStep toNum s1)"
    using s1(1) by (simp add: updatePlayer_def)
  moreover have "stable (terminalStep toNum s1)"
    using s1 assms physics_vx [of k s] by (simp add: stable_def physics_vy)
  ultimately show ?thesis using s1(6) by simp
qed

lemma gameLoop_stable:
  assumes "stable s"
  shows "\<exists>s'. gameLoop toNum rnd k s = Inr s' \<and> stable s'"
  using updatePlayer_stable [OF assms, of toNum rnd k] assms
  by (auto simp: gameLoop_def)

lemma reachable_stable: "reachable toNum s \<Longrightarrow> stable s"
proof (induction rule: reachable.induct)
  case (start rnd stored)
  show ?case by (rule stable_startGame)
next
  case (frame s rnd k s')
  with gameLoop_stable [of s toNum rnd k] show ?case by auto
next
  case (reset s rnd)
  show ?case by (rule stable_resetGame)
next
  case (reset_after_throw s rnd k e s' rnd')
  show ?case by (rule stable_resetGame)
qed

subsection \<open>Game over and the stored high score\<close>

lemma physics_keeps:
  "highScore (physics k s) = highScore s"
  "storage (physics k s) = storage s"
  "gameRunning (physics k s) = gameRunning s"
  using physics_cases [of k s] by auto

lemma horizontalStep_at_rest:
  assumes "velocityX (player s) = 0" "\<not> left k" "\<not> right k"
  shows "horizontalStep k s = s"
proof -
  have "(player s)\<lparr>velocityX := 0, pl_x := pl_x (player s)\<rparr> = player s"
    using assms(1) by (cases "player s") simp
  then show ?thesis
    using assms by (simp add: horizontalStep_def Let_def maxVelocityX_def)
qed

lemma wrapStep_on_screen:
  "- pl_width (player s) \<le> pl_x (player s) \<Longrightarrow> pl_x (player s) \<le> canvas_width \<Longrightarrow>
   wrapStep s = s"
  by (simp add: wrapStep_def Let_def)

lemma moved_member:
  "p \<in> set (platforms s) \<Longrightarrow>
   p\<lparr>pf_y := pf_y p + (- velocityY (player s))\<rparr> \<in> set (movedPlatforms s)"
  unfolding movedPlatforms_def set_map by (rule imageI)

lemma gameOver_fields [simp]:
  "gameRunning (gameOver toNum s) = False"
  "score (gameOver toNum s) = score s"
  "player (gameOver toNum s) = player s"
  "platforms (gameOver toNum s) = platforms s"
  by (simp_all add: gameOver_def Let_def)

lemma gameOver_highScore:
  "js_gt toNum (score s) (highScore s) \<Longrightarrow>
     highScore (gameOver toNum s) = JNum (score s) \<and>
     storage (gameOver toNum s) = Some (number_to_string (score s))"
  "\<not> js_gt toNum (score s) (highScore s) \<Longrightarrow>
     highScore (gameOver toNum s) = highScore s \<and> storage (gameOver toNum s) = storage s"
  by (simp_all add: gameOver_def Let_def)

lemma scrollStep_keeps:
  "highScore (finalState (scrollStep rnd s)) = highScore s"
  "storage (finalState (scrollStep rnd s)) = storage s"
  by (auto simp: scrollStep_unfold finalState_def split: sum.splits)

lemma gameOver_synced: "synced s \<Longrightarrow> synced (gameOver toNum s)"
  by (auto simp: synced_def gameOver_def Let_def)

lemma updatePlayer_synced:
  assumes "synced s"
  shows "synced (finalState (updatePlayer toNum rnd k s))"
proof (cases "scrollStep rnd (physics k s)")
  case (Inl f)
  with scrollStep_keeps [of rnd "physics k s"] assms show ?thesis
    by (simp add: updatePlayer_def finalState_def synced_def physics_keeps)
next
  case (Inr s1)
  with scrollStep_keeps [of rnd "physics k s"] assms have "synced s1"
    by (simp add: finalState_def synced_def physics_keeps)
  then have "synced (terminalStep toNum s1)"
    by (simp add: terminalStep_def gameOver_synced)
  with Inr show ?thesis by (simp add: updatePlayer_def finalState_def)
qed

lemma resetGame_synced: "synced s \<Longrightarrow> synced (resetGame rnd s)"
  by (simp add: synced_def resetGame_def)

lemma reachable_synced: "reachable toNum s \<Longrightarrow> synced s"
proof (induction rule: reachable.induct)
  case (start rnd stored)
  show ?case by (simp add: synced_def startGame_def)
next
  case (frame s rnd k s')
  from updatePlayer_synced [OF frame.IH, of toNum rnd k] frame.hyps(2) frame.IH
  show ?case by (auto simp: gameLoop_def finalState_def split: if_splits)
next
  case (reset s rnd)
  then show ?case by (simp add: resetGame_synced)
next
  case (reset_after_throw s rnd k e s' rnd')
  from updatePlayer_synced [OF reset_after_throw.IH, of toNum rnd k] reset_after_throw.hyps(2)
  have "synced s'" by (auto simp: gameLoop_def finalState_def split: if_splits)
  then show ?case by (rule resetGame_synced)
qed

lemma js_gt_toNumber:
  "js_gt toNum n v \<longleftrightarrow> (case toNumber toNum v of None \<Rightarrow> False | Some r \<Rightarrow> real_of_int n > r)"
  by (simp add: js_gt_def toNumber_def split: jsval.splits)

lemma digit_value_digit: "d < 10 \<Longrightarrow> digit_value (''0123456789'' ! d) = Some d"
proof -
  assume "d < 10"
  then have "d \<in> {0, 1, 2, 3, 4, 5, 6, 7, 8, 9}" by auto
  then show ?thesis by (auto simp: digit_value_def)
qed

lemma parse_digits_snoc:
  "parse_digits acc (cs @ [c]) =
     (case parse_digits acc cs of
        None \<Rightarrow> None
      | Some m \<Rightarrow> (case digit_value c of None \<Rightarrow> None | Some d \<Rightarrow> Some (10 * m + d)))"
  by (induction cs arbitrary: acc) (auto split: option.splits)

lemma parse_digits_of: "parse_digits 0 (digits_of n) = Some n"
proof (induction n rule: digits_of.induct)
  case (1 n)
  show ?case
  proof (cases "n < 10")
    case True
    then show ?thesis by (subst digits_of.simps) (simp add: digit_value_digit)
  next
    case False
    have "n mod 10 < 10" by simp
    with False "1.IH" show ?thesis
      by (subst digits_of.simps) (simp add: parse_digits_snoc digit_value_digit)
  qed
qed

lemma digits_of_first:
  "\<exists>c cs. digits_of n = c # cs \<and> c \<noteq> CHR ''-''"
proof -
  obtain c cs where cs: "digits_of n = c # cs"
    using parse_digits_of [of n]
    by (cases "digits_of n") (auto simp: digits_of.simps [of n] split: if_splits)
  with parse_digits_of [of n] have "digit_value c \<noteq> None" by (auto split: option.splits)
  then have "c \<noteq> CHR ''-''" by (auto simp: digit_value_def)
  with cs show ?thesis by blast
qed

lemma decimalToNumber_roundtrip:
  "decimalToNumber (number_to_string n) = Some (real_of_int n)"
proof (cases "n < 0")
  case True
  obtain c cs where "digits_of (nat (- n)) = c # cs" using digits_of_first by blast
  with True parse_digits_of [of "nat (- n)"] show ?thesis
    by (simp add: decimalToNumber_def number_to_string_def)
next
  case False
  obtain c cs where "digits_of (nat n) = c # cs" "c \<noteq> CHR ''-''"
    using digits_of_first by blast
  with False parse_digits_of [of "nat n"] show ?thesis
    by (simp add: decimalToNumber_def number_to_string_def)
qed

lemma number_to_string_nonempty: "number_to_string n \<noteq> []"
  using digits_of_first [of "nat n"] digits_of_first [of "nat (- n)"]
  by (auto simp: number_to_string_def)

lemma synced_stored:
  assumes "synced s" and "\<forall>n. toNum (number_to_string n) = Some (real_of_int n)"
  shows "toNumber toNum (highScore s) = storedScore toNum (storage s)"
  using assms number_to_string_nonempty
  by (auto simp: synced_def storedScore_def toNumber_def readHighScore_def)

subsection \<open>At most one platform is hit\<close>





lemma ladder_gap:
  "ladder (p # r) \<Longrightarrow> q \<in> set r \<Longrightarrow> pf_y q \<le> pf_y p - platformGap"
proof (induction r arbitrary: p)
  case Nil
  then show ?case by simp
next
  case (Cons a r)
  from Cons.prems have a: "pf_y a = pf_y p - platformGap" and l: "ladder (a # r)" by auto
  show ?case
  proof (cases "q = a")
    case True
    with a show ?thesis by simp
  next
    case False
    with Cons.prems have "q \<in> set r" by simp
    from Cons.IH [OF l this] a show ?thesis by (simp add: platformGap_def)
  qed
qed

lemma ladder_one_band:
  assumes "ladder (p # r)"
    and "list_all (\<lambda>p. pf_height p = platformHeight) (p # r)"
    and "hits pl p" and "q \<in> set r"
  shows "\<not> hits pl q"
proof
  assume "hits pl q"
  moreover from assms(2,4) have "pf_height q = platformHeight" by (simp add: list_all_iff)
  moreover from assms(1,4) have "pf_y q \<le> pf_y p - platformGap" by (rule ladder_gap)
  ultimately show False using assms(3) by (simp add: hits_def game_constants)
qed



lemma uniform_initPlatforms:
  "list_all (\<lambda>p. pf_height p = platformHeight) (initPlatforms rnd)"
  by (simp add: initPlatforms_def newPlatform_def list_all_iff)

lemma replenish_uniform:
  "replenish rnd ps = Inr ps' \<Longrightarrow> list_all (\<lambda>p. pf_height p = platformHeight) ps \<Longrightarrow>
   list_all (\<lambda>p. pf_height p = platformHeight) ps'"
proof (induction rnd ps rule: replenish.induct)
  case (1 rnd ps)
  show ?case
  proof (cases "length ps < 10")
    case False
    with "1.prems" show ?thesis by (simp add: replenish.simps)
  next
    case True
    with "1.prems"(1) have ne: "ps \<noteq> []"
      by (auto simp: replenish.simps [of rnd ps])
    let ?q = "newPlatform (rnd 0 * (canvas_width - platformWidth)) (pf_y (last ps) - platformGap)"
    from "1.prems"(1) True ne have "replenish (\<lambda>i. rnd (Suc i)) (ps @ [?q]) = Inr ps'"
      by (simp add: replenish.simps [of rnd ps])
    moreover have "list_all (\<lambda>p. pf_height p = platformHeight) (ps @ [?q])"
      using "1.prems"(2) by (simp add: newPlatform_def)
    ultimately show ?thesis using True ne by (intro "1.IH")
  qed
qed

lemma scrollStep_uniform:
  assumes "scrollStep rnd s = Inr s'" and "uniform s"
  shows "uniform s'"
proof (cases "scrolling s")
  case False
  with assms show ?thesis by (simp add: scrollStep_unfold)
next
  case True
  with assms(1) obtain ps where
    r: "replenish rnd (keptPlatforms s) = Inr ps" and s': "platforms s' = ps"
    by (auto simp: scrollStep_unfold split: sum.splits)
  have "list_all (\<lambda>p. pf_height p = platformHeight) (keptPlatforms s)"
    using assms(2) by (auto simp: uniform_def keptPlatforms_def movedPlatforms_def list_all_iff)
  with r have "list_all (\<lambda>p. pf_height p = platformHeight) ps" by (rule replenish_uniform)
  with s' show ?thesis by (simp add: uniform_def)
qed

lemma gameLoop_uniform:
  assumes "gameLoop toNum rnd k s = Inr s'" and "uniform s"
  shows "uniform s'"
proof (cases "gameRunning s")
  case False
  with assms show ?thesis by (simp add: gameLoop_def)
next
  case True
  with assms(1) obtain s1 where
    s1: "scrollStep rnd (physics k s) = Inr s1" and s': "s' = terminalStep toNum s1"
    by (auto simp: gameLoop_def updatePlayer_def split: sum.splits)
  from assms(2) have "uniform (physics k s)" by (simp add: uniform_def physics_platforms)
  with s1 have "uniform s1" by (rule scrollStep_uniform)
  with s' show ?thesis by (simp add: uniform_def)
qed

lemma reachable_uniform: "reachable toNum s \<Longrightarrow> uniform s"
proof (induction rule: reachable.induct)
  case (start rnd stored)
  show ?case by (simp add: uniform_def startGame_def uniform_initPlatforms)
next
  case (frame s rnd k s')
  from frame.hyps(2) frame.IH show ?case by (rule gameLoop_uniform)
next
  case (reset s rnd)
  show ?case by (simp add: uniform_def resetGame_def uniform_initPlatforms)
next
  case (reset_after_throw s rnd k e s' rnd')
  show ?case by (simp add: uniform_def resetGame_def uniform_initPlatforms)
qed

lemma reachable_single_hit:
  assumes "reachable toNum s" and "platforms s = pre @ p # post"
    and "hits pl p"
  shows "\<forall>q\<in>set pre \<union> set post. \<not> hits pl q"
proof
  fix q assume q: "q \<in> set pre \<union> set post"
  from assms(1) have lad: "ladder (platforms s)"
    and uni: "list_all (\<lambda>p. pf_height p = platformHeight) (platforms s)"
    using reachable_stable reachable_uniform by (auto simp: stable_def uniform_def)
  show "\<not> hits pl q"
  proof (cases "q \<in> set post")
    case True
    have "ladder (drop (length pre) (platforms s))" using lad by (rule ladder_drop)
    then have "ladder (p # post)" by (simp add: assms(2))
    moreover have "list_all (\<lambda>p. pf_height p = platformHeight) (p # post)"
      using uni by (simp add: assms(2))
    ultimately show ?thesis using assms(3) True by (rule ladder_one_band)
  next
    case False
    with q have "q \<in> set pre" by simp
    then obtain a b where pre: "pre = a @ q # b" by (auto dest: split_list)
    have "ladder (drop (length a) (platforms s))" using lad by (rule ladder_drop)
    then have l: "ladder (q # b @ p # post)" by (simp add: assms(2) pre)
    have u: "list_all (\<lambda>p. pf_height p = platformHeight) (q # b @ p # post)"
      using uni by (simp add: assms(2) pre)
    have m: "p \<in> set (b @ p # post)" by simp
    have "\<not> hits pl p" if "hits pl q" using l u that m by (rule ladder_one_band)
    with assms(3) show ?thesis by blast
  qed
qed

text \<open>
  What the pass does on any state, reachable or not: the first platform hit takes effect
  and the later ones are skipped. On a state whose platforms are closer together than
  the ladder allows, this differs from applying every platform that is hit.
\<close>

lemma collision_first_platform_only:
  assumes "velocityY (player s) > 0"
    and "platforms s = pre @ p # post"
    and "\<forall>q\<in>set pre. \<not> hits (player s) q"
    and "hits (player s) p"
  shows "collisionStep s =
           s\<lparr>player := (player s)\<lparr>velocityY := jumpStrength, jumping := True\<rparr>,
             score := max (score s) (jumpScore p)\<rparr> \<and>
         score s \<le> score (collisionStep s)"
  using assms fold_collide_first_hit [where s = s and pre = pre and p = p and post = post]
  by (simp add: collisionStep_def bounce_def)

lemma passes_differ_off_ladder:
  "velocityY (player (fixture 0 205 455 0 (1 / 2) False [500, 490])) > 0 \<and>
   hits (player (fixture 0 205 455 0 (1 / 2) False [500, 490])) (newPlatform 190 500) \<and>
   hits (player (fixture 0 205 455 0 (1 / 2) False [500, 490])) (newPlatform 190 490) \<and>
   score (collisionStep (fixture 0 205 455 0 (1 / 2) False [500, 490])) = 10 \<and>
   score (fold collideEach (platforms (fixture 0 205 455 0 (1 / 2) False [500, 490]))
            (fixture 0 205 455 0 (1 / 2) False [500, 490])) = 11"
  by (simp add: fixture_def collisionStep_def collide_def collideEach_def hits_def
      jumpScore_def newPlatform_def game_constants Let_def)

subsection \<open>Reaching concrete states\<close>

lemma frames_reachable:
  "reachable toNum s \<Longrightarrow> frames toNum ins s = Inr s' \<Longrightarrow> reachable toNum s'"
proof (induction ins arbitrary: s)
  case Nil
  then show ?case by simp
next
  case (Cons i ins)
  from Cons.prems(2) obtain s1 where
    s1: "gameLoop toNum (snd i) (fst i) s = Inr s1" "frames toNum ins s1 = Inr s'"
    by (auto split: sum.splits)
  from Cons.prems(1) s1(1) have "reachable toNum s1" by (rule reachable.frame)
  then show ?case using s1(2) by (rule Cons.IH)
qed

lemma startGame_fixture:
  "startGame (\<lambda>_. 1 / 2) None =
     fixture 0 205 450 0 0 False [550, 470, 390, 310, 230, 150, 70, - 10, - 90, - 170]"
  by (simp add: startGame_def fixture_def initPlatforms_def readHighScore_def
      initialPlayer_def upt_rec game_constants newPlatform_def)

lemma frames_to_climbing:
  "frames (\<lambda>_. None) (replicate 62 (noKeys, \<lambda>_. 1 / 2))
     (fixture 0 205 450 0 0 False [550, 470, 390, 310, 230, 150, 70, - 10, - 90, - 170]) =
   Inr climbing"
  by (simp add: climbing_def fixture_def step_defs eval_nat_numeral replenish.simps)

lemma reachable_climbing: "reachable (\<lambda>_. None) climbing"
proof -
  have "reachable (\<lambda>_. None) (startGame (\<lambda>_. 1 / 2) None)" by (rule reachable.start)
  then show ?thesis
    unfolding startGame_fixture using frames_to_climbing by (rule frames_reachable)
qed

lemma climbing_next:
  "updatePlayer (\<lambda>_. None) (\<lambda>_. 1 / 2) noKeys climbing =
     Inr (fixture 131 205 101 0 (- 6) True [575, 495, 415, 335, 255, 175, 95, 15, - 65, - 145])"
  by (simp add: climbing_def fixture_def step_defs replenish.simps)

lemma climbing_physics:
  "physics noKeys climbing = fixture 125 205 101 0 (- 6) True
                [649, 569, 489, 409, 329, 249, 169, 89, 9, - 71]"
  by (simp add: climbing_def fixture_def step_defs)

lemma climbing_kept:
  "keptPlatforms (physics noKeys climbing) =
     map (newPlatform 190) [575, 495, 415, 335, 255, 175, 95, 15, - 65]"
  by (simp add: climbing_physics)
     (simp add: fixture_def keptPlatforms_def movedPlatforms_def newPlatform_def game_constants)

lemma reachable_moving_right:
  "reachable (\<lambda>_. None)
     (fixture 0 212 (901 / 2) 7 (1 / 2) False
        [550, 470, 390, 310, 230, 150, 70, - 10, - 90, - 170])"
proof -
  have "reachable (\<lambda>_. None) (startGame (\<lambda>_. 1 / 2) None)" by (rule reachable.start)
  moreover have "gameLoop (\<lambda>_. None) (\<lambda>_. 1 / 2) rightKey (startGame (\<lambda>_. 1 / 2) None) =
      Inr (fixture 0 212 (901 / 2) 7 (1 / 2) False
        [550, 470, 390, 310, 230, 150, 70, - 10, - 90, - 170])"
    unfolding startGame_fixture by (simp add: fixture_def step_defs)
  ultimately show ?thesis by (rule reachable.frame)
qed

lemma startGame_stored:
  "startGame (\<lambda>_. 1 / 2) stored =
     (fixture 0 205 450 0 0 False [550, 470, 390, 310, 230, 150, 70, - 10, - 90, - 170])
       \<lparr>highScore := readHighScore stored, storage := stored\<rparr>"
  by (simp add: startGame_def fixture_def initPlatforms_def
      initialPlayer_def upt_rec game_constants newPlatform_def)

lemma frames_to_falling:
  "frames toNum (replicate 14 (noKeys, \<lambda>_. 1 / 2) @ replicate 65 (rightKey, \<lambda>_. 1 / 2))
     ((fixture 0 205 450 0 0 False [550, 470, 390, 310, 230, 150, 70, - 10, - 90, - 170])
        \<lparr>highScore := hs, storage := st\<rparr>) =
   Inr (falling hs st)"
  by (simp add: falling_def fixture_def step_defs eval_nat_numeral replenish.simps)

lemma reachable_falling: "reachable toNum (falling (readHighScore stored) stored)"
proof -
  have "reachable toNum (startGame (\<lambda>_. 1 / 2) stored)" by (rule reachable.start)
  then show ?thesis
    unfolding startGame_stored using frames_to_falling by (rule frames_reachable)
qed


text \<open>
  Outside the reachable states the loop does throw: with no platform at all, the scroll
  branch reads the last element of an empty list.
\<close>

lemma empty_list_throws:
  "updatePlayer (\<lambda>_. None) (\<lambda>_. 1 / 2) noKeys (fixture 0 205 100 0 (- 5) False []) =
     Inl (TypeError, fixture 0 205 (191 / 2) 0 (- (9 / 2)) False [])"
  by (simp add: fixture_def step_defs replenish.simps)

section \<open>The claims\<close>



text \<open>
  C2. In every reachable state, for every input and every random draw, the list that the
  replenishment loop starts from is not empty, and the tick returns: the read of the
  last platform never meets an empty list.
\<close>

theorem replenish_never_reads_empty:
  assumes "reachable toNum s"
  shows "keptPlatforms (physics k s) \<noteq> [] \<and> (\<exists>s'. updatePlayer toNum rnd k s = Inr s')"
proof -
  from assms have st: "stable s" by (rule reachable_stable)
  then have "length (platforms (physics k s)) = 10" "ladder (platforms (physics k s))"
    "pf_y (hd (platforms (physics k s))) < canvas_height + 50"
    "jumpStrength \<le> velocityY (player (physics k s))"
    by (simp_all add: stable_def physics_platforms physics_vy)
  from kept_ladder [OF this]
    updatePlayer_stable [OF st, where toNum = toNum and rnd = rnd and k = k]
  show ?thesis by blast
qed

theorem replenish_never_reads_empty_witness:
  "reachable (\<lambda>_. None) climbing \<and>
   keptPlatforms (physics noKeys climbing) =
     map (newPlatform 190) [575, 495, 415, 335, 255, 175, 95, 15, - 65] \<and>
   keptPlatforms (physics noKeys climbing) \<noteq> [] \<and>
   (\<exists>s'. updatePlayer (\<lambda>_. None) (\<lambda>_. 1 / 2) noKeys climbing = Inr s')"
  using replenish_never_reads_empty [OF reachable_climbing, of noKeys "\<lambda>_. 1 / 2"]
    reachable_climbing climbing_kept
  by simp

text \<open>
  C3 (amended). Reading the persisted high score yields 0 when the key is absent or
  holds the empty text, and otherwise yields the stored text itself, whatever it is.
\<close>

theorem readHighScore_cases:
  "readHighScore None = JNum 0 \<and> readHighScore (Some []) = JNum 0 \<and>
   (t \<noteq> [] \<longrightarrow> readHighScore (Some t) = JStr t)"
  by (simp add: readHighScore_def)

theorem readHighScore_cases_witness:
  "''42'' \<noteq> [] \<and> readHighScore (Some ''42'') = JStr ''42''"
  using readHighScore_cases [of "''42''"] by simp

text \<open>C3 as stated fails: a stored text that is not a number is not replaced by 0.\<close>

theorem readHighScore_corrupt_counterexample:
  "readHighScore (Some ''abc'') = JStr ''abc'' \<and> readHighScore (Some ''abc'') \<noteq> JNum 0"
  by (simp add: readHighScore_def)

text \<open>
  C4. The score after a tick is at least the score before it, for every state and
  every input, whether the tick returns or throws.
\<close>

theorem score_never_decreases:
  "score s \<le> score (finalState (updatePlayer toNum rnd k s))"
  using physics_score [where s = s and k = k]
    updatePlayer_final(2) [where s = s and k = k and toNum = toNum and rnd = rnd] by simp

theorem score_never_decreases_witness:
  "score (finalState (updatePlayer (\<lambda>_. None) (\<lambda>_. 1 / 2) noKeys
            (fixture 3 205 500 0 0 False [550, 470]))) = 5 \<and>
   score (fixture 3 205 500 0 0 False [550, 470])
     \<le> score (finalState (updatePlayer (\<lambda>_. None) (\<lambda>_. 1 / 2) noKeys
            (fixture 3 205 500 0 0 False [550, 470])))"
  using score_never_decreases
    [of "fixture 3 205 500 0 0 False [550, 470]" "\<lambda>_. None" "\<lambda>_. 1 / 2" noKeys]
  by (simp add: fixture_def step_defs finalState_def)

text \<open>
  C5 (amended). Let the player (50 by 50, on screen) be at rest horizontally with no key
  held and falling once gravity is added, and let p be the first platform in list order
  that the player overlaps horizontally with its bottom edge strictly between p.y and
  p.y + p.height + 15 after the vertical move. Then the tick returns with vertical
  velocity jumpStrength, and the score is the larger of the old score and
  floor(|p.y - canvasHeight| / 10), plus 15 when the player is above canvasHeight / 3
  (the scroll branch then runs in the same tick).
\<close>

theorem bounce_from_rest:
  assumes rest: "velocityX (player s) = 0" "\<not> left k" "\<not> right k"
    and size: "pl_width (player s) = 50" "pl_height (player s) = 50"
    and on_screen: "- 50 \<le> pl_x (player s)" "pl_x (player s) \<le> canvas_width"
    and falling: "velocityY (player s) + gravity > 0"
    and order: "platforms s = pre @ p # post"
    and before: "\<forall>q\<in>set pre. \<not> hits (player (verticalStep s)) q"
    and under: "hits (player (verticalStep s)) p"
  shows "\<exists>s'. updatePlayer toNum rnd k s = Inr s' \<and>
           velocityY (player s') = jumpStrength \<and>
           score s' = max (score s) (jumpScore p) +
             (if pl_y (player s) + (velocityY (player s) + gravity) < canvas_height / 3
              then 15 else 0)"
proof -
  let ?v = "verticalStep s"
  let ?b = "bounce p ?v"
  have "horizontalStep k s = s" using rest by (rule horizontalStep_at_rest)
  moreover have "wrapStep s = s" using on_screen size by (simp add: wrapStep_on_screen)
  ultimately have "physics k s = collisionStep ?v" by (simp add: physics_def)
  also have "\<dots> = fold collide (pre @ p # post) ?v"
    using falling order by (simp add: collisionStep_def)
  also have "\<dots> = ?b"
    using falling before under by (intro fold_collide_first_hit) simp_all
  finally have ph: "physics k s = ?b" .
  show ?thesis
  proof (cases "scrolling ?b")
    case False
    then have "scrollStep rnd ?b = Inr ?b" by (simp add: scrollStep_unfold)
    then have "updatePlayer toNum rnd k s = Inr (terminalStep toNum ?b)"
      by (simp add: updatePlayer_def ph)
    moreover have "\<not> pl_y (player s) + (velocityY (player s) + gravity) < canvas_height / 3"
      using False by (simp add: scrolling_def jumpStrength_def)
    ultimately show ?thesis by simp
  next
    case True
    then have high: "pl_y (player s) + (velocityY (player s) + gravity) < canvas_height / 3"
      by (simp add: scrolling_def)
    let ?q = "p\<lparr>pf_y := pf_y p + (- velocityY (player ?b))\<rparr>"
    have "p \<in> set (platforms ?b)" using order by simp
    then have "?q \<in> set (movedPlatforms ?b)" by (rule moved_member)
    moreover have "pf_y ?q < canvas_height + 50"
      using under high size by (simp add: hits_def game_constants)
    ultimately have "?q \<in> set (keptPlatforms ?b)" by (simp add: keptPlatforms_def)
    then have "keptPlatforms ?b \<noteq> []" by auto
    from replenish_total [OF this, of rnd] obtain new where
      "replenish rnd (keptPlatforms ?b) = Inr (keptPlatforms ?b @ new)" ..
    then have "scrollStep rnd ?b =
        Inr (?b\<lparr>platforms := keptPlatforms ?b @ new,
                 score := score ?b + \<lfloor>- velocityY (player ?b)\<rfloor>\<rparr>)"
      using True by (simp add: scrollStep_unfold)
    then have "updatePlayer toNum rnd k s =
        Inr (terminalStep toNum (?b\<lparr>platforms := keptPlatforms ?b @ new,
                 score := score ?b + \<lfloor>- velocityY (player ?b)\<rfloor>\<rparr>))"
      by (simp add: updatePlayer_def ph)
    then show ?thesis using high by (simp add: jumpStrength_def)
  qed
qed

theorem bounce_from_rest_witness:
  "velocityX (player (fixture 0 205 500 0 0 False [550, 470])) = 0 \<and>
   hits (player (verticalStep (fixture 0 205 500 0 0 False [550, 470]))) (newPlatform 190 550) \<and>
   updatePlayer (\<lambda>_. None) (\<lambda>_. 1 / 2) noKeys (fixture 0 205 500 0 0 False [550, 470]) =
     Inr (fixture 5 205 (1001 / 2) 0 (- 15) True [550, 470])"
  using bounce_from_rest
    [of "fixture 0 205 500 0 0 False [550, 470]" noKeys "[]" "newPlatform 190 550"
        "[newPlatform 190 470]" "\<lambda>_. None" "\<lambda>_. 1 / 2"]
  by (simp add: fixture_def step_defs)

text \<open>
  C5 as stated fails in three ways. A bottom edge exactly at p.y (550) lies in the stated
  band but does not bounce: the velocity stays 1/2. A bounce above canvasHeight / 3 also
  scrolls: the score ends at 45 + 15. A platform that is hit but is not the first one hit
  does not set the score: it ends at 10, not at that platform's 11.
\<close>

theorem bounce_from_rest_counterexample:
  "pf_y (newPlatform 190 550) \<le> 500 + 50 \<and>
   500 + 50 < pf_y (newPlatform 190 550) + pf_height (newPlatform 190 550) + 15 \<and>
   updatePlayer (\<lambda>_. None) (\<lambda>_. 1 / 2) noKeys (fixture 0 205 (999 / 2) 0 0 False [550]) =
     Inr (fixture 0 205 500 0 (1 / 2) False [550]) \<and>
   jumpScore (newPlatform 190 150) = 45 \<and>
   updatePlayer (\<lambda>_. None) (\<lambda>_. 1 / 2) noKeys (fixture 0 205 100 0 0 False [150]) =
     Inr (fixture 60 205 (201 / 2) 0 (- 15) True
            [165, 85, 5, - 75, - 155, - 235, - 315, - 395, - 475, - 555]) \<and>
   hits (player (verticalStep (fixture 0 205 (909 / 2) 0 0 False [500, 490])))
     (newPlatform 190 490) \<and>
   jumpScore (newPlatform 190 490) = 11 \<and>
   updatePlayer (\<lambda>_. None) (\<lambda>_. 1 / 2) noKeys (fixture 0 205 (909 / 2) 0 0 False [500, 490]) =
     Inr (fixture 10 205 455 0 (- 15) True [500, 490])"
  by (simp add: fixture_def step_defs replenish.simps)

text \<open>
  C6. From every reachable state, a tick whose scroll branch runs returns with exactly
  ten platforms: those that stayed above canvasHeight + 50 after the move, followed by
  the newly appended ones.
\<close>

theorem scroll_restores_ten_platforms:
  assumes "reachable toNum s" and "scrolling (physics k s)"
  shows "\<exists>s' new. updatePlayer toNum rnd k s = Inr s' \<and> length (platforms s') = 10 \<and>
           platforms s' = keptPlatforms (physics k s) @ new"
  using updatePlayer_stable
      [OF reachable_stable [OF assms(1)], where toNum = toNum and rnd = rnd and k = k]
    assms(2)
  by (auto simp: stable_def)

theorem scroll_restores_ten_platforms_witness:
  "reachable (\<lambda>_. None) climbing \<and> scrolling (physics noKeys climbing) \<and>
   (\<exists>s' new. updatePlayer (\<lambda>_. None) (\<lambda>_. 1 / 2) noKeys climbing = Inr s' \<and>
      length (platforms s') = 10 \<and>
      platforms s' = keptPlatforms (physics noKeys climbing) @ new)"
proof -
  have sc: "scrolling (physics noKeys climbing)"
    by (simp add: climbing_physics) (simp add: fixture_def scrolling_def game_constants)
  from scroll_restores_ten_platforms [OF reachable_climbing sc, of "\<lambda>_. 1 / 2"]
    reachable_climbing sc
  show ?thesis by simp
qed

text \<open>
  C7. In every reachable state the magnitude of the horizontal velocity is at most
  maxVelocityX.
\<close>

theorem horizontal_speed_bounded:
  "reachable toNum s \<Longrightarrow> \<bar>velocityX (player s)\<bar> \<le> maxVelocityX"
  by (drule reachable_stable) (simp add: stable_def)

theorem horizontal_speed_bounded_witness:
  "reachable (\<lambda>_. None)
     (fixture 0 212 (901 / 2) 7 (1 / 2) False
        [550, 470, 390, 310, 230, 150, 70, - 10, - 90, - 170]) \<and>
   \<bar>velocityX (player (fixture 0 212 (901 / 2) 7 (1 / 2) False
        [550, 470, 390, 310, 230, 150, 70, - 10, - 90, - 170]))\<bar> \<le> maxVelocityX"
  using horizontal_speed_bounded [OF reachable_moving_right] reachable_moving_right
  by simp

text \<open>
  C8. After the horizontal move, a player wholly left of the screen is put at
  canvasWidth and a player whose left edge is right of the screen is put at -width;
  the tick changes x no further, so x ends in [-width, canvasWidth].
\<close>

theorem wrap_is_toroidal:
  assumes "0 \<le> pl_width (player s)"
  shows "(pl_x (player (horizontalStep k s)) + pl_width (player s) < 0 \<longrightarrow>
            pl_x (player (finalState (updatePlayer toNum rnd k s))) = canvas_width) \<and>
         (pl_x (player (horizontalStep k s)) > canvas_width \<longrightarrow>
            pl_x (player (finalState (updatePlayer toNum rnd k s))) = - pl_width (player s)) \<and>
         - pl_width (player s) \<le> pl_x (player (finalState (updatePlayer toNum rnd k s))) \<and>
         pl_x (player (finalState (updatePlayer toNum rnd k s))) \<le> canvas_width"
  using assms wrapStep_x [of "horizontalStep k s"]
  by (simp add: updatePlayer_final physics_px)

theorem wrap_is_toroidal_witness:
  "0 \<le> pl_width (player (fixture 0 (- 49) 450 0 0 False [550])) \<and>
   pl_x (player (horizontalStep leftKey (fixture 0 (- 49) 450 0 0 False [550]))) +
     pl_width (player (fixture 0 (- 49) 450 0 0 False [550])) < 0 \<and>
   pl_x (player (finalState (updatePlayer (\<lambda>_. None) (\<lambda>_. 1 / 2) leftKey
           (fixture 0 (- 49) 450 0 0 False [550])))) = 460 \<and>
   0 \<le> pl_width (player (fixture 0 455 450 0 0 False [550])) \<and>
   pl_x (player (horizontalStep rightKey (fixture 0 455 450 0 0 False [550]))) > canvas_width \<and>
   pl_x (player (finalState (updatePlayer (\<lambda>_. None) (\<lambda>_. 1 / 2) rightKey
           (fixture 0 455 450 0 0 False [550])))) = - 50"
  using wrap_is_toroidal
      [of "fixture 0 (- 49) 450 0 0 False [550]" leftKey "\<lambda>_. None" "\<lambda>_. 1 / 2"]
    wrap_is_toroidal
      [of "fixture 0 455 450 0 0 False [550]" rightKey "\<lambda>_. None" "\<lambda>_. 1 / 2"]
  by (simp add: fixture_def horizontalStep_def leftKey_def rightKey_def game_constants Let_def)

text \<open>
  C9. When the player's y exceeds canvasHeight after the physics of a tick, the tick
  returns with the running flag cleared. The high score and its stored entry become the
  current score exactly when the current score is strictly greater than the number the
  high score in memory stands for, and stay as they were otherwise (also when it stands
  for no number). In a reachable state, with a conversion that reads decimal numerals
  back, that number is the one the stored entry stands for (0 when the entry is absent).
\<close>

theorem fall_off_bottom_ends_run:
  assumes "pl_y (player (physics k s)) > canvas_height"
  shows "\<exists>s'. updatePlayer toNum rnd k s = Inr s' \<and> \<not> gameRunning s' \<and>
           score s' = score (physics k s) \<and>
           (case toNumber toNum (highScore s) of
              None \<Rightarrow> highScore s' = highScore s \<and> storage s' = storage s
            | Some r \<Rightarrow>
                if real_of_int (score s') > r
                then highScore s' = JNum (score s') \<and>
                     storage s' = Some (number_to_string (score s'))
                else highScore s' = highScore s \<and> storage s' = storage s) \<and>
           (reachable toNum s \<and> (\<forall>n. toNum (number_to_string n) = Some (real_of_int n)) \<longrightarrow>
              (case storedScore toNum (storage s) of
                 None \<Rightarrow> highScore s' = highScore s \<and> storage s' = storage s
               | Some r \<Rightarrow>
                   if real_of_int (score s') > r
                   then highScore s' = JNum (score s') \<and>
                        storage s' = Some (number_to_string (score s'))
                   else highScore s' = highScore s \<and> storage s' = storage s))"
proof -
  let ?p = "physics k s"
  let ?s' = "gameOver toNum ?p"
  from assms have "\<not> scrolling ?p" by (simp add: scrolling_def canvas_height_def)
  then have "scrollStep rnd ?p = Inr ?p" by (simp add: scrollStep_unfold)
  then have u: "updatePlayer toNum rnd k s = Inr ?s'"
    using assms by (simp add: updatePlayer_def terminalStep_def)
  have mem: "case toNumber toNum (highScore s) of
              None \<Rightarrow> highScore ?s' = highScore s \<and> storage ?s' = storage s
            | Some r \<Rightarrow>
                if real_of_int (score ?s') > r
                then highScore ?s' = JNum (score ?s') \<and>
                     storage ?s' = Some (number_to_string (score ?s'))
                else highScore ?s' = highScore s \<and> storage ?s' = storage s"
    using gameOver_highScore [of toNum ?p]
    by (auto simp: js_gt_toNumber physics_keeps split: option.splits)
  have eq: "toNumber toNum (highScore s) = storedScore toNum (storage s)"
    if "reachable toNum s" "\<forall>n. toNum (number_to_string n) = Some (real_of_int n)"
    using that by (intro synced_stored reachable_synced)
  have st: "case storedScore toNum (storage s) of
              None \<Rightarrow> highScore ?s' = highScore s \<and> storage ?s' = storage s
            | Some r \<Rightarrow>
                if real_of_int (score ?s') > r
                then highScore ?s' = JNum (score ?s') \<and>
                     storage ?s' = Some (number_to_string (score ?s'))
                else highScore ?s' = highScore s \<and> storage ?s' = storage s"
    if "reachable toNum s \<and> (\<forall>n. toNum (number_to_string n) = Some (real_of_int n))"
    using mem eq that by simp
  show ?thesis
  proof (intro exI [of _ ?s'] conjI impI)
    show "updatePlayer toNum rnd k s = Inr ?s'" by (rule u)
    show "\<not> gameRunning ?s'" by simp
    show "score ?s' = score (physics k s)" by simp
  qed (fact mem, erule st)
qed

theorem fall_off_bottom_ends_run_witness:
  "reachable decimalToNumber (falling (JNum 0) None) \<and>
   (\<forall>n. decimalToNumber (number_to_string n) = Some (real_of_int n)) \<and>
   pl_y (player (physics noKeys (falling (JNum 0) None))) > canvas_height \<and>
   storedScore decimalToNumber None = Some 0 \<and>
   updatePlayer decimalToNumber (\<lambda>_. 1 / 2) noKeys (falling (JNum 0) None) =
     Inr ((fixture 5 (758 / 5) 618 (28 / 5) 18 True
             [550, 470, 390, 310, 230, 150, 70, - 10, - 90, - 170])
            \<lparr>gameRunning := False, highScore := JNum 5, storage := Some ''5''\<rparr>) \<and>
   reachable decimalToNumber (falling (JStr ''5'') (Some ''5'')) \<and>
   pl_y (player (physics noKeys (falling (JStr ''5'') (Some ''5'')))) > canvas_height \<and>
   storedScore decimalToNumber (Some ''5'') = Some 5 \<and>
   updatePlayer decimalToNumber (\<lambda>_. 1 / 2) noKeys (falling (JStr ''5'') (Some ''5'')) =
     Inr ((fixture 5 (758 / 5) 618 (28 / 5) 18 True
             [550, 470, 390, 310, 230, 150, 70, - 10, - 90, - 170])
            \<lparr>gameRunning := False, highScore := JStr ''5'', storage := Some ''5''\<rparr>)"
proof -
  have a: "reachable decimalToNumber (falling (JNum 0) None)"
    using reachable_falling [of decimalToNumber None] by (simp add: readHighScore_def)
  have b: "reachable decimalToNumber (falling (JStr ''5'') (Some ''5''))"
    using reachable_falling [of decimalToNumber "Some ''5''"] by (simp add: readHighScore_def)
  have rt: "\<forall>n. decimalToNumber (number_to_string n) = Some (real_of_int n)"
    by (simp add: decimalToNumber_roundtrip)
  have fa: "pl_y (player (physics noKeys (falling (JNum 0) None))) > canvas_height"
    by (simp add: physics_px falling_def fixture_def game_constants)
  have fb: "pl_y (player (physics noKeys (falling (JStr ''5'') (Some ''5'')))) > canvas_height"
    by (simp add: physics_px falling_def fixture_def game_constants)
  have sa: "storedScore decimalToNumber None = Some 0"
    by (simp add: storedScore_def readHighScore_def toNumber_def)
  have sb: "storedScore decimalToNumber (Some ''5'') = Some 5"
    by (simp add: storedScore_def readHighScore_def toNumber_def decimalToNumber_def
        digit_value_def)
  have ua: "updatePlayer decimalToNumber (\<lambda>_. 1 / 2) noKeys (falling (JNum 0) None) =
     Inr ((fixture 5 (758 / 5) 618 (28 / 5) 18 True
             [550, 470, 390, 310, 230, 150, 70, - 10, - 90, - 170])
            \<lparr>gameRunning := False, highScore := JNum 5, storage := Some ''5''\<rparr>)"
    by (simp add: falling_def fixture_def step_defs js_gt_def number_to_string_def
        digits_of.simps)
  have ub: "updatePlayer decimalToNumber (\<lambda>_. 1 / 2) noKeys (falling (JStr ''5'') (Some ''5'')) =
     Inr ((fixture 5 (758 / 5) 618 (28 / 5) 18 True
             [550, 470, 390, 310, 230, 150, 70, - 10, - 90, - 170])
            \<lparr>gameRunning := False, highScore := JStr ''5'', storage := Some ''5''\<rparr>)"
    by (simp add: falling_def fixture_def step_defs js_gt_def decimalToNumber_def
        digit_value_def)
  from fall_off_bottom_ends_run [OF fa, of decimalToNumber "\<lambda>_. 1 / 2"]
    fall_off_bottom_ends_run [OF fb, of decimalToNumber "\<lambda>_. 1 / 2"]
    a b rt fa fb sa sb ua ub
  show ?thesis by blast
qed

text \<open>
  C10. In every reachable state the vertical velocity is at least jumpStrength, and the
  distance a tick scrolls by, the negated velocity after the collision pass, is at
  most 15.
\<close>

theorem vertical_speed_bounded:
  "reachable toNum s \<Longrightarrow>
     jumpStrength \<le> velocityY (player s) \<and> - velocityY (player (physics k s)) \<le> 15"
  using physics_vy [where s = s and k = k]
  by (auto dest!: reachable_stable simp: stable_def jumpStrength_def)

theorem vertical_speed_bounded_witness:
  "reachable (\<lambda>_. None) climbing \<and> velocityY (player climbing) = - (13 / 2) \<and>
   jumpStrength \<le> velocityY (player climbing) \<and>
   - velocityY (player (physics noKeys climbing)) \<le> 15"
  using vertical_speed_bounded [OF reachable_climbing, of noKeys] reachable_climbing
  by (simp add: climbing_def fixture_def)

end
